theory Spec2Isabelle
  imports Main "HOL-Library.Multiset" "HOL-Library.Sublist"
begin

section \<open>The data model of \<open>main.go\<close>\<close>

text \<open>
  The Go structs are records with the field names of the source. Several structs share a
  field name (\<open>XMLName\<close>, \<open>Content\<close>, \<open>Name\<close>); a selector is then written with its
  struct, as in \<open>ReportHost.Name h\<close>. A Go \<open>string\<close> is a byte sequence, here
  \<^typ>\<open>string\<close>; a slice is a list. The slices of this program are never shared between
  two live owners (each parse allocates fresh ones, and \<open>append\<close> is only ever applied to
  the slice held by one map entry), so value lists describe them exactly.
\<close>

record xml_Name =
  Space :: string
  Local :: string

record Policy =
  XMLName :: xml_Name
  Content :: string

record HostProperties =
  XMLName :: xml_Name
  Content :: string

record ReportItem =
  XMLName :: xml_Name
  Content :: string
  Port :: string
  SvcName :: string
  Protocol :: string
  Severity :: string
  PluginID :: string
  PluginName :: string
  PluginFamily :: string

record ReportHost =
  XMLName :: xml_Name
  Name :: string
  HostProperties :: HostProperties
  ReportItems :: "ReportItem list"

record Report =
  XMLName :: xml_Name
  Name :: string
  ReportHosts :: "ReportHost list"

record NessusClientData =
  XMLName :: xml_Name
  Policy :: Policy
  Report :: Report

text \<open>The zero values that Go gives to \<open>var basePolicy Policy\<close> and to omitted fields.\<close>

definition zero_xml_Name :: xml_Name where
  "zero_xml_Name = \<lparr>Space = [], Local = []\<rparr>"

definition zero_Policy :: Policy where
  "zero_Policy = \<lparr>Policy.XMLName = zero_xml_Name, Content = []\<rparr>"

section \<open>The world outside the program\<close>

text \<open>
  A Go \<open>error\<close> is represented by its message, and a fallible call returns
  \<open>error + 'a\<close> with \<open>Inl\<close> for the error. The file system and the package
  \<open>encoding/xml\<close> are not part of the repository: they are the fields of an
  environment. Nothing is assumed about it, except where a statement names the hypothesis
  \<open>innerxml_verbatim\<close> below. The environment is fixed during one run.
\<close>

type_synonym error = string

type_synonym os_File = nat

record env =
  os_Open :: "string \<Rightarrow> error + os_File"
  io_ReadAll :: "os_File \<Rightarrow> error + string"
  xml_Unmarshal :: "string \<Rightarrow> error + NessusClientData"
  xml_MarshalIndent :: "NessusClientData \<Rightarrow> string \<Rightarrow> string \<Rightarrow> error + string"

text \<open>The constant \<open>xml.Header\<close> of \<open>encoding/xml\<close>.\<close>

definition xml_Header :: string where
  "xml_Header = ''<?xml version=\"1.0\" encoding=\"UTF-8\"?>'' @ [CHR 0x0A]"

text \<open>
  What the documentation of \<open>encoding/xml\<close> says of the struct tags that \<open>main.go\<close>
  puts on its fields. A field tagged \<open>,innerxml\<close> (the \<open>Content\<close> of \<open>Policy\<close>,
  \<open>HostProperties\<close> and \<open>ReportItem\<close>) is written verbatim, not subject to the usual
  marshalling. A field tagged \<open>name,attr\<close> (the \<open>Name\<close> of \<open>Report\<close>) becomes an
  attribute, and its value is written unchanged when it holds no character that the
  encoder escapes; letters, digits and spaces are never escaped. \<open>innerxml_verbatim e\<close>
  says that the encoder of the environment \<open>e\<close> keeps to this: whenever it returns
  bytes, each such string of the document occurs in them as it is.
\<close>

definition xml_plain :: "string \<Rightarrow> bool" where
  "xml_plain s \<longleftrightarrow>
     list_all (\<lambda>c. c \<in> set ''ABCDEFGHIJKLMNOPQRSTUVWXYZabcdefghijklmnopqrstuvwxyz0123456789 '') s"

definition innerxml_verbatim :: "env \<Rightarrow> bool" where
  "innerxml_verbatim e \<longleftrightarrow>
     (\<forall>v pfx indent body.
        xml_MarshalIndent e v pfx indent = Inr body \<longrightarrow>
          (xml_plain (Report.Name (Report v)) \<longrightarrow> sublist (Report.Name (Report v)) body) \<and>
          sublist (Policy.Content (Policy v)) body \<and>
          (\<forall>h \<in> set (ReportHosts (Report v)).
             sublist (HostProperties.Content (HostProperties h)) body \<and>
             (\<forall>item \<in> set (ReportItems h). sublist (ReportItem.Content item) body)))"

section \<open>Parsing one file\<close>

definition parseNessusFile :: "env \<Rightarrow> string \<Rightarrow> error + NessusClientData" where
  "parseNessusFile e filename =
     (case os_Open e filename of
        Inl err \<Rightarrow> Inl err
      | Inr file \<Rightarrow>
          (case io_ReadAll e file of
             Inl err \<Rightarrow> Inl err
           | Inr content \<Rightarrow>
               (case xml_Unmarshal e content of
                  Inl err \<Rightarrow> Inl err
                | Inr data \<Rightarrow> Inr data)))"

section \<open>Counting hosts\<close>

text \<open>
  The counters are Go \<open>int\<close>s that only ever grow by one or by the length of a slice.
  On the 64-bit targets of the tool a counter would need more than \<open>9 * 10^18\<close> host
  elements or findings to wrap, so they are natural numbers here.
\<close>

fun countTotalHosts_loop :: "env \<Rightarrow> string list \<Rightarrow> nat \<Rightarrow> error + nat" where
  "countTotalHosts_loop e [] totalCount = Inr totalCount"
| "countTotalHosts_loop e (file # files) totalCount =
     (case parseNessusFile e file of
        Inl err \<Rightarrow> Inl (''error parsing '' @ file @ '': '' @ err)
      | Inr data \<Rightarrow>
          countTotalHosts_loop e files (totalCount + length (ReportHosts (Report data))))"

definition countTotalHosts :: "env \<Rightarrow> string list \<Rightarrow> error + nat" where
  "countTotalHosts e files = countTotalHosts_loop e files 0"

section \<open>The merge\<close>

text \<open>
  The local variables of \<open>mergeNessusFiles\<close> that the loops update. \<open>hostMap\<close> is a Go
  \<open>map[string]*ReportHost\<close>; every pointer in it is to a fresh \<open>hostCopy\<close> that
  nothing else refers to, so the map holds the hosts themselves. The progress bar only
  writes to the terminal and is left out.
\<close>

record merge_state =
  basePolicy :: Policy
  hostMap :: "string \<rightharpoonup> ReportHost"
  processedHosts :: nat
  uniqueHosts :: nat
  mergedHosts :: nat
  totalFindings :: nat

definition init_state :: merge_state where
  "init_state =
     \<lparr>basePolicy = zero_Policy, hostMap = Map.empty, processedHosts = 0,
      uniqueHosts = 0, mergedHosts = 0, totalFindings = 0\<rparr>"

text \<open>The body of the inner loop, for one \<open>host\<close> of the current file.\<close>

definition processHost :: "merge_state \<Rightarrow> ReportHost \<Rightarrow> merge_state" where
  "processHost st host =
     (let st1 = st\<lparr>processedHosts := processedHosts st + 1\<rparr>
      in case hostMap st1 (ReportHost.Name host) of
           None \<Rightarrow>
             st1\<lparr>hostMap := (hostMap st1)(ReportHost.Name host \<mapsto> host),
                 uniqueHosts := uniqueHosts st1 + 1,
                 totalFindings := totalFindings st1 + length (ReportItems host)\<rparr>
         | Some existingHost \<Rightarrow>
             st1\<lparr>hostMap := (hostMap st1)(ReportHost.Name host \<mapsto>
                    existingHost\<lparr>ReportItems := ReportItems existingHost @ ReportItems host\<rparr>),
                 mergedHosts := mergedHosts st1 + 1,
                 totalFindings := totalFindings st1 + length (ReportItems host)\<rparr>)"

fun processHosts :: "merge_state \<Rightarrow> ReportHost list \<Rightarrow> merge_state" where
  "processHosts st [] = st"
| "processHosts st (host # hosts) = processHosts (processHost st host) hosts"

text \<open>The outer loop, \<open>for i, file := range files\<close>, from index \<open>i\<close> on.\<close>

fun mergeLoop :: "env \<Rightarrow> nat \<Rightarrow> string list \<Rightarrow> merge_state \<Rightarrow> error + merge_state" where
  "mergeLoop e i [] st = Inr st"
| "mergeLoop e i (file # files) st =
     (case parseNessusFile e file of
        Inl err \<Rightarrow> Inl (''error parsing '' @ file @ '': '' @ err)
      | Inr data \<Rightarrow>
          (let st1 = (if i = 0 then st\<lparr>basePolicy := Policy data\<rparr> else st)
           in mergeLoop e (i + 1) files (processHosts st1 (ReportHosts (Report data)))))"

text \<open>
  \<open>for _, host := range hostMap\<close> visits every entry of the map once, in an order the Go
  runtime chooses. The order is the argument \<open>keys\<close>; \<open>range_order m keys\<close> says that it
  is an order the runtime can choose for \<open>m\<close>.
\<close>

fun range_map :: "('k \<rightharpoonup> 'v) \<Rightarrow> 'k list \<Rightarrow> 'v list" where
  "range_map m [] = []"
| "range_map m (k # ks) =
     (case m k of None \<Rightarrow> range_map m ks | Some v \<Rightarrow> v # range_map m ks)"

definition range_order :: "('k \<rightharpoonup> 'v) \<Rightarrow> 'k list \<Rightarrow> bool" where
  "range_order m keys \<longleftrightarrow> distinct keys \<and> set keys = dom m"

text \<open>The struct \<open>mergedData\<close> built after the loops.\<close>

definition mergedData :: "merge_state \<Rightarrow> string list \<Rightarrow> NessusClientData" where
  "mergedData st keys =
     \<lparr>NessusClientData.XMLName = zero_xml_Name,
      Policy = basePolicy st,
      Report = \<lparr>Report.XMLName = zero_xml_Name,
                Name = ''Merged Nessus Report'',
                ReportHosts = range_map (hostMap st) keys\<rparr>\<rparr>"

text \<open>
  \<open>totalHosts\<close> only sizes the progress bar. The summary that the function prints is the
  four counters of the final state.
\<close>

definition mergeNessusFiles :: "env \<Rightarrow> string list \<Rightarrow> string list \<Rightarrow> nat \<Rightarrow> error + string" where
  "mergeNessusFiles e keys files totalHosts =
     (case mergeLoop e 0 files init_state of
        Inl err \<Rightarrow> Inl err
      | Inr st \<Rightarrow>
          (case xml_MarshalIndent e (mergedData st keys) [] ''  '' of
             Inl err \<Rightarrow> Inl (''error marshaling XML: '' @ err)
           | Inr output \<Rightarrow> Inr (xml_Header @ output)))"

section \<open>Vocabulary for the properties\<close>

text \<open>
  The host entries of all input documents in processing order, the entries with a given
  name, their findings, every finding paired with the name of its host, the number of
  findings, and the distinct names that occur more than once.
\<close>

definition hostOccurrences :: "NessusClientData list \<Rightarrow> ReportHost list" where
  "hostOccurrences docs = concat (map (\<lambda>d. ReportHosts (Report d)) docs)"

definition named :: "string \<Rightarrow> ReportHost list \<Rightarrow> ReportHost list" where
  "named n hosts = filter (\<lambda>h. ReportHost.Name h = n) hosts"

definition findingsOf :: "ReportHost list \<Rightarrow> ReportItem list" where
  "findingsOf hosts = concat (map ReportItems hosts)"

definition attributed :: "ReportHost list \<Rightarrow> (string \<times> ReportItem) list" where
  "attributed hosts = concat (map (\<lambda>h. map (Pair (ReportHost.Name h)) (ReportItems h)) hosts)"

definition findingCount :: "ReportHost list \<Rightarrow> nat" where
  "findingCount hosts = sum_list (map (\<lambda>h. length (ReportItems h)) hosts)"

definition seenMoreThanOnce :: "ReportHost list \<Rightarrow> string list" where
  "seenMoreThanOnce hosts =
     filter (\<lambda>n. 1 < length (named n hosts)) (remdups (map ReportHost.Name hosts))"

section \<open>Example inputs\<close>

text \<open>
  Files \<open>A\<close> and \<open>B\<close> are the two files of the worked example: host \<open>10.0.0.1\<close> with
  three findings and host \<open>10.0.0.2\<close> with one, then host \<open>10.0.0.1\<close> again with two.
  File \<open>C\<close> has host \<open>10.0.0.1\<close> a third time, file \<open>D\<close> has one host name twice,
  file \<open>E\<close> is file \<open>B\<close> under another policy, and file \<open>X\<close> is not valid markup.
\<close>

definition demo_item :: "string \<Rightarrow> ReportItem" where
  "demo_item pid =
     \<lparr>ReportItem.XMLName = \<lparr>Space = [], Local = ''ReportItem''\<rparr>,
      Content = ''<plugin_output>'' @ pid @ ''</plugin_output>'', Port = ''0'', SvcName = ''general'',
      Protocol = ''tcp'', Severity = ''0'', PluginID = pid, PluginName = ''Scan'',
      PluginFamily = ''Settings''\<rparr>"

definition demo_host :: "string \<Rightarrow> string \<Rightarrow> string list \<Rightarrow> ReportHost" where
  "demo_host name props pids =
     \<lparr>ReportHost.XMLName = \<lparr>Space = [], Local = ''ReportHost''\<rparr>,
      Name = name,
      HostProperties = \<lparr>HostProperties.XMLName = \<lparr>Space = [], Local = ''HostProperties''\<rparr>,
                        Content = props\<rparr>,
      ReportItems = map demo_item pids\<rparr>"

definition demo_doc :: "string \<Rightarrow> ReportHost list \<Rightarrow> NessusClientData" where
  "demo_doc policy hosts =
     \<lparr>NessusClientData.XMLName = \<lparr>Space = [], Local = ''NessusClientData_v2''\<rparr>,
      Policy = \<lparr>Policy.XMLName = \<lparr>Space = [], Local = ''Policy''\<rparr>, Content = policy\<rparr>,
      Report = \<lparr>Report.XMLName = \<lparr>Space = [], Local = ''Report''\<rparr>, Name = ''scan'',
                ReportHosts = hosts\<rparr>\<rparr>"

definition docA :: NessusClientData where
  "docA = demo_doc ''pA''
     [demo_host ''10.0.0.1'' ''A1'' [''1'', ''2'', ''3''], demo_host ''10.0.0.2'' ''A2'' [''4'']]"

definition docB :: NessusClientData where
  "docB = demo_doc ''pB'' [demo_host ''10.0.0.1'' ''B1'' [''5'', ''6'']]"

definition docC :: NessusClientData where
  "docC = demo_doc ''pC'' [demo_host ''10.0.0.1'' ''C1'' [''7'']]"

definition docD :: NessusClientData where
  "docD = demo_doc ''pD'' [demo_host ''h'' ''D1'' [''8''], demo_host ''h'' ''D2'' [''9'']]"

definition docE :: NessusClientData where
  "docE = demo_doc ''pE'' [demo_host ''10.0.0.1'' ''B1'' [''5'', ''6'']]"

text \<open>
  A small encoder: it writes the elements without indentation, the report name without
  escaping, and no attribute of a host or of a finding.
\<close>

definition demo_encode_item :: "ReportItem \<Rightarrow> string" where
  "demo_encode_item item = ''<ReportItem>'' @ ReportItem.Content item @ ''</ReportItem>''"

definition demo_encode_host :: "ReportHost \<Rightarrow> string" where
  "demo_encode_host h =
     ''<ReportHost><HostProperties>'' @ HostProperties.Content (HostProperties h) @
     ''</HostProperties>'' @ concat (map demo_encode_item (ReportItems h)) @ ''</ReportHost>''"

definition demo_encode :: "NessusClientData \<Rightarrow> string" where
  "demo_encode v =
     ''<NessusClientData_v2><Policy>'' @ Policy.Content (Policy v) @
     ''</Policy><Report name=\"'' @ Report.Name (Report v) @ ''\">'' @
     concat (map demo_encode_host (ReportHosts (Report v))) @
     ''</Report></NessusClientData_v2>''"

text \<open>
  A file system with these six files. The stand-in for the decoder tells the files apart
  by their length; the encoder is the small one.
\<close>

definition demo_env :: env where
  "demo_env =
     \<lparr>os_Open = (\<lambda>name.
        if name = ''A'' then Inr 1 else if name = ''B'' then Inr 2
        else if name = ''C'' then Inr 3 else if name = ''D'' then Inr 4
        else if name = ''E'' then Inr 5 else if name = ''X'' then Inr 6
        else Inl ''no such file''),
      io_ReadAll = (\<lambda>file. Inr (replicate file (CHR ''<''))),
      xml_Unmarshal = (\<lambda>content.
        if length content = 1 then Inr docA else if length content = 2 then Inr docB
        else if length content = 3 then Inr docC else if length content = 4 then Inr docD
        else if length content = 5 then Inr docE else Inl ''unexpected EOF''),
      xml_MarshalIndent = (\<lambda>v pfx indent. Inr (demo_encode v))\<rparr>"

text \<open>The loop states that the runs over \<open>[A]\<close>, \<open>[A, B]\<close>, \<open>[A, B, C]\<close> and \<open>[D]\<close> end in.\<close>

definition stateA :: merge_state where
  "stateA =
     \<lparr>basePolicy = Policy docA,
      hostMap = [''10.0.0.1'' \<mapsto> demo_host ''10.0.0.1'' ''A1'' [''1'', ''2'', ''3''],
                 ''10.0.0.2'' \<mapsto> demo_host ''10.0.0.2'' ''A2'' [''4'']],
      processedHosts = 2, uniqueHosts = 2, mergedHosts = 0, totalFindings = 4\<rparr>"

definition stateAB :: merge_state where
  "stateAB =
     \<lparr>basePolicy = Policy docA,
      hostMap = [''10.0.0.1'' \<mapsto> demo_host ''10.0.0.1'' ''A1'' [''1'', ''2'', ''3'', ''5'', ''6''],
                 ''10.0.0.2'' \<mapsto> demo_host ''10.0.0.2'' ''A2'' [''4'']],
      processedHosts = 3, uniqueHosts = 2, mergedHosts = 1, totalFindings = 6\<rparr>"

definition stateABC :: merge_state where
  "stateABC =
     \<lparr>basePolicy = Policy docA,
      hostMap = [''10.0.0.1'' \<mapsto>
                   demo_host ''10.0.0.1'' ''A1'' [''1'', ''2'', ''3'', ''5'', ''6'', ''7''],
                 ''10.0.0.2'' \<mapsto> demo_host ''10.0.0.2'' ''A2'' [''4'']],
      processedHosts = 4, uniqueHosts = 2, mergedHosts = 2, totalFindings = 7\<rparr>"

definition stateD :: merge_state where
  "stateD =
     \<lparr>basePolicy = Policy docD,
      hostMap = [''h'' \<mapsto> demo_host ''h'' ''D1'' [''8'', ''9'']],
      processedHosts = 2, uniqueHosts = 1, mergedHosts = 1, totalFindings = 2\<rparr>"

section \<open>The inner loop\<close>

text \<open>
  Processing a list of hosts from the empty map leaves, under each name, the first host
  of that name with the findings of all hosts of that name appended in order.
\<close>

lemma processHosts_append:
  "processHosts st (xs @ ys) = processHosts (processHosts st xs) ys"
  by (induction xs arbitrary: st) simp_all

lemma processHosts_snoc:
  "processHosts st (xs @ [h]) = processHost (processHosts st xs) h"
  by (simp add: processHosts_append)

lemma processHost_basePolicy:
  "processHost (st\<lparr>basePolicy := p\<rparr>) h = (processHost st h)\<lparr>basePolicy := p\<rparr>"
  by (simp add: processHost_def Let_def split: option.splits)

lemma processHosts_basePolicy:
  "processHosts (st\<lparr>basePolicy := p\<rparr>) hs = (processHosts st hs)\<lparr>basePolicy := p\<rparr>"
  by (induction hs arbitrary: st) (simp_all add: processHost_basePolicy)

lemma basePolicy_processHost [simp]:
  "basePolicy (processHost st h) = basePolicy st"
  by (simp add: processHost_def Let_def split: option.splits)

lemma basePolicy_processHosts [simp]:
  "basePolicy (processHosts st hs) = basePolicy st"
  by (induction hs arbitrary: st) simp_all

lemma named_append [simp]: "named n (xs @ ys) = named n xs @ named n ys"
  by (simp add: named_def)

lemma named_Nil_iff: "named n hs = [] \<longleftrightarrow> n \<notin> ReportHost.Name ` set hs"
  by (auto simp: named_def filter_empty_conv)

lemma hostMap_processHosts:
  "hostMap (processHosts init_state hs) n =
     (case named n hs of
        [] \<Rightarrow> None
      | h # rest \<Rightarrow> Some (h\<lparr>ReportItems := findingsOf (h # rest)\<rparr>))"
proof (induction hs rule: rev_induct)
  case Nil
  show ?case by (simp add: init_state_def named_def)
next
  case (snoc x xs)
  show ?case
  proof (cases "ReportHost.Name x = n")
    case False
    then have "hostMap (processHosts init_state (xs @ [x])) n = hostMap (processHosts init_state xs) n"
      by (simp add: processHosts_snoc processHost_def Let_def split: option.splits)
    moreover from False have "named n (xs @ [x]) = named n xs"
      by (simp add: named_def)
    ultimately show ?thesis using snoc.IH by simp
  next
    case True
    then have nx: "named n (xs @ [x]) = named n xs @ [x]"
      by (simp add: named_def)
    show ?thesis
    proof (cases "named n xs")
      case Nil
      with snoc.IH True nx show ?thesis
        by (simp add: processHosts_snoc processHost_def Let_def findingsOf_def)
    next
      case (Cons h rest)
      with snoc.IH True nx show ?thesis
        by (simp add: processHosts_snoc processHost_def Let_def findingsOf_def)
    qed
  qed
qed

lemma hostMap_None_iff:
  "hostMap (processHosts init_state hs) n = None \<longleftrightarrow> n \<notin> ReportHost.Name ` set hs"
  by (simp add: hostMap_processHosts named_Nil_iff [symmetric] split: list.splits)

lemma dom_hostMap_processHosts:
  "dom (hostMap (processHosts init_state hs)) = ReportHost.Name ` set hs"
  using hostMap_None_iff [of hs] by (auto simp: dom_def)

lemma hostMap_key:
  assumes "hostMap (processHosts init_state hs) n = Some h"
  shows "ReportHost.Name h = n"
proof -
  from assms obtain h0 rest where 1: "named n hs = h0 # rest" and 2: "h = h0\<lparr>ReportItems := findingsOf (h0 # rest)\<rparr>"
    by (auto simp: hostMap_processHosts split: list.splits)
  from 1 have "h0 \<in> set (named n hs)" by simp
  then have "ReportHost.Name h0 = n" by (simp add: named_def)
  with 2 show ?thesis by simp
qed

lemma processedHosts_processHosts:
  "processedHosts (processHosts init_state hs) = length hs"
  by (induction hs rule: rev_induct)
     (simp_all add: init_state_def processHosts_snoc processHost_def Let_def split: option.splits)

lemma totalFindings_processHosts:
  "totalFindings (processHosts init_state hs) = length (findingsOf hs)"
  by (induction hs rule: rev_induct)
     (simp_all add: init_state_def processHosts_snoc processHost_def Let_def findingsOf_def split: option.splits)

lemma uniqueHosts_processHosts:
  "uniqueHosts (processHosts init_state hs) = card (ReportHost.Name ` set hs)"
proof (induction hs rule: rev_induct)
  case Nil
  show ?case by (simp add: init_state_def)
next
  case (snoc x xs)
  have "hostMap (processHosts init_state xs) (ReportHost.Name x) = None
          \<longleftrightarrow> ReportHost.Name x \<notin> ReportHost.Name ` set xs"
    by (rule hostMap_None_iff)
  with snoc.IH show ?case
    by (auto simp: processHosts_snoc processHost_def Let_def insert_absorb split: option.splits)
qed

lemma mergedHosts_processHosts:
  "mergedHosts (processHosts init_state hs) + card (ReportHost.Name ` set hs) = length hs"
proof (induction hs rule: rev_induct)
  case Nil
  show ?case by (simp add: init_state_def)
next
  case (snoc x xs)
  have "hostMap (processHosts init_state xs) (ReportHost.Name x) = None
          \<longleftrightarrow> ReportHost.Name x \<notin> ReportHost.Name ` set xs"
    by (rule hostMap_None_iff)
  with snoc.IH show ?case
    by (auto simp: processHosts_snoc processHost_def Let_def insert_absorb split: option.splits)
qed

section \<open>The outer loop\<close>

text \<open>
  When every file parses, the outer loop is the inner loop over all hosts of all
  documents, with the policy of the first document.
\<close>

lemma hostOccurrences_Nil [simp]: "hostOccurrences [] = []"
  by (simp add: hostOccurrences_def)

lemma hostOccurrences_Cons [simp]:
  "hostOccurrences (d # ds) = ReportHosts (Report d) @ hostOccurrences ds"
  by (simp add: hostOccurrences_def)

lemma mergeLoop_parsed:
  "map (parseNessusFile e) files = map Inr docs \<Longrightarrow>
   mergeLoop e i files st =
     Inr (processHosts
            (case docs of [] \<Rightarrow> st
             | d # _ \<Rightarrow> if i = 0 then st\<lparr>basePolicy := Policy d\<rparr> else st)
            (hostOccurrences docs))"
proof (induction files arbitrary: i st docs)
  case Nil
  then show ?case by simp
next
  case (Cons f fs)
  from Cons.prems obtain d ds where docs: "docs = d # ds"
    and f: "parseNessusFile e f = Inr d"
    and fs: "map (parseNessusFile e) fs = map Inr ds"
    by (cases docs) auto
  show ?case
    by (cases ds) (simp_all add: docs f Cons.IH [OF fs] processHosts_append)
qed

lemma mergeLoop_result:
  assumes "map (parseNessusFile e) files = map Inr docs"
    and "mergeLoop e 0 files init_state = Inr st"
  shows "st = (processHosts init_state (hostOccurrences docs))
                \<lparr>basePolicy := (case docs of [] \<Rightarrow> zero_Policy | d # _ \<Rightarrow> Policy d)\<rparr>"
proof (cases docs)
  case Nil
  with assms have "st = init_state"
    by (simp add: mergeLoop_parsed [OF assms(1)])
  with Nil show ?thesis
    by (simp add: init_state_def)
next
  case (Cons d ds)
  with assms show ?thesis
    by (simp add: mergeLoop_parsed [OF assms(1)] processHosts_basePolicy)
qed

lemma mergeLoop_error:
  "map (parseNessusFile e) pre = map Inr docs \<Longrightarrow> parseNessusFile e f = Inl err \<Longrightarrow>
   mergeLoop e i (pre @ f # post) st = Inl (''error parsing '' @ f @ '': '' @ err)"
proof (induction pre arbitrary: i st docs)
  case Nil
  then show ?case by simp
next
  case (Cons g gs)
  from Cons.prems(1) obtain d ds where "parseNessusFile e g = Inr d"
    and "map (parseNessusFile e) gs = map Inr ds"
    by (cases docs) auto
  with Cons.IH [OF _ Cons.prems(2)] show ?case by simp
qed

lemma countTotalHosts_loop_error:
  "map (parseNessusFile e) pre = map Inr docs \<Longrightarrow> parseNessusFile e f = Inl err \<Longrightarrow>
   countTotalHosts_loop e (pre @ f # post) c = Inl (''error parsing '' @ f @ '': '' @ err)"
proof (induction pre arbitrary: c docs)
  case Nil
  then show ?case by simp
next
  case (Cons g gs)
  from Cons.prems(1) obtain d ds where "parseNessusFile e g = Inr d"
    and "map (parseNessusFile e) gs = map Inr ds"
    by (cases docs) auto
  with Cons.IH [OF _ Cons.prems(2)] show ?case by simp
qed

lemma countTotalHosts_loop_parsed:
  "map (parseNessusFile e) files = map Inr docs \<Longrightarrow>
   countTotalHosts_loop e files c = Inr (c + length (hostOccurrences docs))"
proof (induction files arbitrary: c docs)
  case Nil
  then show ?case by simp
next
  case (Cons f fs)
  from Cons.prems obtain d ds where docs: "docs = d # ds"
    and f: "parseNessusFile e f = Inr d"
    and fs: "map (parseNessusFile e) fs = map Inr ds"
    by (cases docs) auto
  show ?case by (simp add: docs f Cons.IH [OF fs])
qed

text \<open>A failing file splits the list at the first one that fails.\<close>

lemma first_failure:
  assumes "f \<in> set files" and "isl (parse f)"
  shows "\<exists>pre g post docs. files = pre @ g # post \<and> map parse pre = map Inr docs \<and> isl (parse g)"
  using assms
proof (induction files)
  case Nil
  then show ?case by simp
next
  case (Cons x xs)
  show ?case
  proof (cases "parse x")
    case (Inl err)
    then have "x # xs = [] @ x # xs \<and> map parse [] = map Inr [] \<and> isl (parse x)"
      by simp
    then show ?thesis by blast
  next
    case (Inr d)
    with Cons.prems have "f \<in> set xs" by auto
    from Cons.IH [OF this Cons.prems(2)] obtain pre g post docs
      where "xs = pre @ g # post" "map parse pre = map Inr docs" "isl (parse g)"
      by blast
    with Inr have "x # xs = (x # pre) @ g # post \<and> map parse (x # pre) = map Inr (d # docs) \<and> isl (parse g)"
      by simp
    then show ?thesis by blast
  qed
qed

section \<open>The merged document\<close>

lemma length_range_map:
  "set ks \<subseteq> dom m \<Longrightarrow> length (range_map m ks) = length ks"
  by (induction ks) (auto split: option.splits)

lemma filter_range_map:
  assumes "\<And>k v. m k = Some v \<Longrightarrow> f v = k" and "distinct ks"
  shows "filter (\<lambda>v. f v = n) (range_map m ks) =
           (if n \<in> set ks then (case m n of None \<Rightarrow> [] | Some v \<Rightarrow> [v]) else [])"
  using assms(2)
proof (induction ks)
  case Nil
  show ?case by simp
next
  case (Cons k ks)
  then show ?case
    by (auto simp: assms(1) split: option.splits)
qed

lemma named_output:
  assumes "map (parseNessusFile e) files = map Inr docs"
    and "mergeLoop e 0 files init_state = Inr st"
    and "range_order (hostMap st) keys"
  shows "named n (ReportHosts (Report (mergedData st keys))) =
           (case named n (hostOccurrences docs) of
              [] \<Rightarrow> []
            | h # rest \<Rightarrow> [h\<lparr>ReportItems := findingsOf (h # rest)\<rparr>])"
proof -
  let ?hs = "hostOccurrences docs"
  have hm: "hostMap st = hostMap (processHosts init_state ?hs)"
    by (simp add: mergeLoop_result [OF assms(1,2)])
  have key: "\<And>k v. hostMap st k = Some v \<Longrightarrow> ReportHost.Name v = k"
    unfolding hm by (rule hostMap_key)
  from assms(3) have d: "distinct keys" and s: "set keys = dom (hostMap st)"
    by (simp_all add: range_order_def)
  have "named n (range_map (hostMap st) keys) =
          (if n \<in> set keys then (case hostMap st n of None \<Rightarrow> [] | Some v \<Rightarrow> [v]) else [])"
    unfolding named_def using key d by (rule filter_range_map)
  also have "\<dots> = (case hostMap st n of None \<Rightarrow> [] | Some v \<Rightarrow> [v])"
    using s by (auto split: option.splits)
  also have "\<dots> = (case named n ?hs of [] \<Rightarrow> [] | h # rest \<Rightarrow> [h\<lparr>ReportItems := findingsOf (h # rest)\<rparr>])"
    by (simp add: hm hostMap_processHosts split: list.splits)
  finally show ?thesis by (simp add: mergedData_def)
qed

lemma length_output:
  assumes "map (parseNessusFile e) files = map Inr docs"
    and "mergeLoop e 0 files init_state = Inr st"
    and "range_order (hostMap st) keys"
  shows "length (ReportHosts (Report (mergedData st keys))) =
           card (ReportHost.Name ` set (hostOccurrences docs))"
proof -
  have hm: "hostMap st = hostMap (processHosts init_state (hostOccurrences docs))"
    by (simp add: mergeLoop_result [OF assms(1,2)])
  from assms(3) have d: "distinct keys" and s: "set keys = dom (hostMap st)"
    by (simp_all add: range_order_def)
  have "length (range_map (hostMap st) keys) = length keys"
    using s by (simp add: length_range_map)
  also have "\<dots> = card (set keys)" using d by (simp add: distinct_card)
  also have "\<dots> = card (ReportHost.Name ` set (hostOccurrences docs))"
    by (simp add: s hm dom_hostMap_processHosts)
  finally show ?thesis by (simp add: mergedData_def)
qed

text \<open>
  When every file parses, both passes return: the count is the number of host
  occurrences, the loops end in a state, an order to range over its map exists, and the
  result of \<open>mergeNessusFiles\<close> is decided by the encoder alone.
\<close>

lemma countTotalHosts_parsed:
  assumes "map (parseNessusFile e) files = map Inr docs"
  shows "countTotalHosts e files = Inr (length (hostOccurrences docs))"
  unfolding countTotalHosts_def countTotalHosts_loop_parsed [OF assms] by simp

lemma mergeNessusFiles_parsed:
  assumes "map (parseNessusFile e) files = map Inr docs"
  shows "\<exists>st. mergeLoop e 0 files init_state = Inr st \<and>
           mergeNessusFiles e keys files totalHosts =
             (case xml_MarshalIndent e (mergedData st keys) [] ''  '' of
                Inl err \<Rightarrow> Inl (''error marshaling XML: '' @ err)
              | Inr output \<Rightarrow> Inr (xml_Header @ output))"
proof -
  from mergeLoop_parsed [OF assms, of 0 init_state]
  obtain st where st: "mergeLoop e 0 files init_state = Inr st" by blast
  show ?thesis
    unfolding mergeNessusFiles_def st by simp
qed

lemma range_order_exists:
  assumes "map (parseNessusFile e) files = map Inr docs"
    and "mergeLoop e 0 files init_state = Inr st"
  shows "\<exists>keys. range_order (hostMap st) keys"
proof -
  have "hostMap st = hostMap (processHosts init_state (hostOccurrences docs))"
    by (simp add: mergeLoop_result [OF assms])
  then have "dom (hostMap st) = ReportHost.Name ` set (hostOccurrences docs)"
    by (simp only: dom_hostMap_processHosts)
  then have "finite (dom (hostMap st))" by simp
  from finite_distinct_list [OF this]
  obtain keys where "set keys = dom (hostMap st) \<and> distinct keys" ..
  then have "range_order (hostMap st) keys" by (simp add: range_order_def)
  then show ?thesis ..
qed

section \<open>Findings and their hosts\<close>

lemma length_findingsOf: "length (findingsOf hs) = findingCount hs"
  by (induction hs) (simp_all add: findingsOf_def findingCount_def)

lemma length_attributed: "length (attributed hs) = findingCount hs"
  by (induction hs) (simp_all add: attributed_def findingCount_def)

lemma filter_attributed:
  "filter (\<lambda>p. fst p = n) (attributed hs) = map (Pair n) (findingsOf (named n hs))"
proof (induction hs)
  case Nil
  show ?case by (simp add: attributed_def findingsOf_def named_def)
next
  case (Cons h hs)
  have "filter (\<lambda>p. fst p = n) (map (Pair (ReportHost.Name h)) (ReportItems h)) =
          (if ReportHost.Name h = n then map (Pair n) (ReportItems h) else [])"
    by (induction "ReportItems h") (auto simp: filter_map comp_def)
  with Cons show ?case
    by (simp add: attributed_def findingsOf_def named_def)
qed

lemma mset_eq_by_key:
  assumes "\<And>n. filter_mset (\<lambda>x. f x = n) A = filter_mset (\<lambda>x. f x = n) B"
  shows "A = B"
proof (rule multiset_eqI)
  fix x
  have "count A x = count (filter_mset (\<lambda>y. f y = f x) A) x" by simp
  also have "\<dots> = count (filter_mset (\<lambda>y. f y = f x) B) x" by (simp only: assms)
  also have "\<dots> = count B x" by simp
  finally show "count A x = count B x" .
qed

lemma findingsOf_named_output:
  assumes "map (parseNessusFile e) files = map Inr docs"
    and "mergeLoop e 0 files init_state = Inr st"
    and "range_order (hostMap st) keys"
  shows "findingsOf (named n (ReportHosts (Report (mergedData st keys)))) =
           findingsOf (named n (hostOccurrences docs))"
  by (simp add: named_output [OF assms] findingsOf_def split: list.splits)

lemma findingsOf_named_docs:
  "findingsOf (named n (hostOccurrences docs)) =
     concat (map (\<lambda>d. findingsOf (named n (ReportHosts (Report d)))) docs)"
  by (induction docs) (simp_all add: findingsOf_def named_def)

lemma mset_attributed_output:
  assumes "map (parseNessusFile e) files = map Inr docs"
    and "mergeLoop e 0 files init_state = Inr st"
    and "range_order (hostMap st) keys"
  shows "mset (attributed (ReportHosts (Report (mergedData st keys)))) =
           mset (attributed (hostOccurrences docs))"
proof (rule mset_eq_by_key [where f = fst])
  fix n
  have "filter (\<lambda>p. fst p = n) (attributed (ReportHosts (Report (mergedData st keys)))) =
          filter (\<lambda>p. fst p = n) (attributed (hostOccurrences docs))"
    by (simp only: filter_attributed findingsOf_named_output [OF assms])
  then have "mset (filter (\<lambda>p. fst p = n) (attributed (ReportHosts (Report (mergedData st keys))))) =
          mset (filter (\<lambda>p. fst p = n) (attributed (hostOccurrences docs)))"
    by (rule arg_cong)
  then show "filter_mset (\<lambda>x. fst x = n) (mset (attributed (ReportHosts (Report (mergedData st keys))))) =
          filter_mset (\<lambda>x. fst x = n) (mset (attributed (hostOccurrences docs)))"
    by (simp only: mset_filter)
qed

lemma hostOccurrences_Reports:
  "map Report ds' = map Report ds \<Longrightarrow> hostOccurrences ds' = hostOccurrences ds"
proof -
  assume "map Report ds' = map Report ds"
  then have "map ReportHosts (map Report ds') = map ReportHosts (map Report ds)"
    by (rule arg_cong)
  then show ?thesis by (simp add: hostOccurrences_def comp_def)
qed

lemma output_host:
  assumes "map (parseNessusFile e) files = map Inr docs"
    and "mergeLoop e 0 files init_state = Inr st"
    and "range_order (hostMap st) keys"
    and "h \<in> set (ReportHosts (Report (mergedData st keys)))"
  shows "\<exists>first later. named (ReportHost.Name h) (hostOccurrences docs) = first # later \<and>
           h = first\<lparr>ReportItems := findingsOf (first # later)\<rparr>"
proof -
  from assms(4) have "h \<in> set (named (ReportHost.Name h) (ReportHosts (Report (mergedData st keys))))"
    by (simp add: named_def)
  then show ?thesis
    by (cases "named (ReportHost.Name h) (hostOccurrences docs)")
       (simp_all add: named_output [OF assms(1-3)])
qed

lemma named_subset: "set (named n hs) \<subseteq> {h \<in> set hs. ReportHost.Name h = n}"
  by (auto simp: named_def)

lemma named_Cons:
  "named n (h # hs) = (if ReportHost.Name h = n then h # named n hs else named n hs)"
  by (simp add: named_def)

lemma filter_distinct_key:
  "distinct (map f xs) \<Longrightarrow> filter (\<lambda>x. f x = n) xs = h # rest \<Longrightarrow> rest = []"
proof (induction xs)
  case Nil
  then show ?case by simp
next
  case (Cons x xs)
  show ?case
  proof (cases "f x = n")
    case True
    with Cons.prems(1) have "n \<notin> f ` set xs" by auto
    then have "filter (\<lambda>x. f x = n) xs = []" by (auto simp: filter_empty_conv)
    with Cons.prems(2) True show ?thesis by simp
  next
    case False
    with Cons show ?thesis by simp
  qed
qed

section \<open>The example runs\<close>

lemma demo_parse:
  "parseNessusFile demo_env ''A'' = Inr docA"
  "parseNessusFile demo_env ''B'' = Inr docB"
  "parseNessusFile demo_env ''C'' = Inr docC"
  "parseNessusFile demo_env ''D'' = Inr docD"
  "parseNessusFile demo_env ''E'' = Inr docE"
  "parseNessusFile demo_env ''X'' = Inl ''unexpected EOF''"
  by (simp_all add: parseNessusFile_def demo_env_def)

lemma demo_parsed_AB:
  "map (parseNessusFile demo_env) [''A'', ''B''] = map Inr [docA, docB]"
  by (simp add: demo_parse)

lemma demo_loop_A: "mergeLoop demo_env 0 [''A''] init_state = Inr stateA"
  by (simp add: demo_parse init_state_def stateA_def processHost_def docA_def
      demo_doc_def demo_host_def fun_eq_iff)

lemma demo_loop_AB: "mergeLoop demo_env 0 [''A'', ''B''] init_state = Inr stateAB"
  by (simp add: demo_parse init_state_def stateAB_def processHost_def docA_def docB_def
      demo_doc_def demo_host_def fun_eq_iff)

lemma demo_loop_ABC: "mergeLoop demo_env 0 [''A'', ''B'', ''C''] init_state = Inr stateABC"
  by (simp add: demo_parse init_state_def stateABC_def processHost_def docA_def docB_def
      docC_def demo_doc_def demo_host_def fun_eq_iff)

lemma demo_loop_D: "mergeLoop demo_env 0 [''D''] init_state = Inr stateD"
  by (simp add: demo_parse init_state_def stateD_def processHost_def docD_def
      demo_doc_def demo_host_def fun_eq_iff)

lemma demo_order_A: "range_order (hostMap stateA) [''10.0.0.2'', ''10.0.0.1'']"
  by (auto simp: range_order_def stateA_def)

lemma demo_order_AB: "range_order (hostMap stateAB) [''10.0.0.2'', ''10.0.0.1'']"
  by (auto simp: range_order_def stateAB_def)

lemma demo_order_D: "range_order (hostMap stateD) [''h'']"
  by (auto simp: range_order_def stateD_def)

lemma demo_hosts_AB:
  "hostOccurrences [docA, docB] =
     [demo_host ''10.0.0.1'' ''A1'' [''1'', ''2'', ''3''], demo_host ''10.0.0.2'' ''A2'' [''4''],
      demo_host ''10.0.0.1'' ''B1'' [''5'', ''6'']]"
  by (simp add: hostOccurrences_def docA_def docB_def demo_doc_def)

lemma demo_host_Name [simp]: "ReportHost.Name (demo_host n p ids) = n"
  by (simp add: demo_host_def)

lemma demo_host_ReportItems [simp]: "ReportItems (demo_host n p ids) = map demo_item ids"
  by (simp add: demo_host_def)

lemma demo_marshal:
  "xml_MarshalIndent demo_env v pfx indent = Inr (demo_encode v)"
  by (simp add: demo_env_def)

lemma demo_output_AB:
  "mergeNessusFiles demo_env [''10.0.0.2'', ''10.0.0.1''] [''A'', ''B''] 3 =
     Inr (xml_Header @ demo_encode (mergedData stateAB [''10.0.0.2'', ''10.0.0.1'']))"
  unfolding mergeNessusFiles_def demo_loop_AB
  by (simp add: demo_marshal)

lemma sublist_concat:
  assumes "x \<in> set xs" and "sublist s (f x)"
  shows "sublist s (concat (map f xs))"
proof -
  from assms(1) obtain as bs where xs: "xs = as @ x # bs"
    by (auto dest: split_list)
  from assms(2) obtain ps ss where "f x = ps @ s @ ss"
    by (auto simp: sublist_def)
  then have "concat (map f xs) = (concat (map f as) @ ps) @ s @ (ss @ concat (map f bs))"
    by (simp add: xs)
  then show ?thesis
    unfolding sublist_def by blast
qed

lemma demo_encode_host_props:
  "sublist (HostProperties.Content (HostProperties h)) (demo_encode_host h)"
proof -
  have "demo_encode_host h =
          ''<ReportHost><HostProperties>'' @ HostProperties.Content (HostProperties h) @
          (''</HostProperties>'' @ concat (map demo_encode_item (ReportItems h)) @ ''</ReportHost>'')"
    by (simp add: demo_encode_host_def)
  then show ?thesis
    unfolding sublist_def by blast
qed

lemma demo_encode_host_item:
  assumes "item \<in> set (ReportItems h)"
  shows "sublist (ReportItem.Content item) (demo_encode_host h)"
proof -
  have "sublist (ReportItem.Content item) (demo_encode_item item)"
    unfolding demo_encode_item_def by (rule sublist_appendI)
  with assms have "sublist (ReportItem.Content item) (concat (map demo_encode_item (ReportItems h)))"
    by (rule sublist_concat)
  then obtain ps ss where "concat (map demo_encode_item (ReportItems h)) = ps @ ReportItem.Content item @ ss"
    by (auto simp: sublist_def)
  then have "demo_encode_host h =
          (''<ReportHost><HostProperties>'' @ HostProperties.Content (HostProperties h) @
           ''</HostProperties>'' @ ps) @ ReportItem.Content item @ (ss @ ''</ReportHost>'')"
    by (simp add: demo_encode_host_def)
  then show ?thesis
    unfolding sublist_def by blast
qed

lemma demo_encode_hosts:
  assumes "h \<in> set (ReportHosts (Report v))" and "sublist s (demo_encode_host h)"
  shows "sublist s (demo_encode v)"
proof -
  from assms have "sublist s (concat (map demo_encode_host (ReportHosts (Report v))))"
    by (rule sublist_concat)
  then obtain ps ss where "concat (map demo_encode_host (ReportHosts (Report v))) = ps @ s @ ss"
    by (auto simp: sublist_def)
  then have "demo_encode v =
          (''<NessusClientData_v2><Policy>'' @ Policy.Content (Policy v) @
           ''</Policy><Report name=\"'' @ Report.Name (Report v) @ ''\">'' @ ps) @ s @
          (ss @ ''</Report></NessusClientData_v2>'')"
    by (simp add: demo_encode_def)
  then show ?thesis
    unfolding sublist_def by blast
qed

lemma demo_encode_name: "sublist (Report.Name (Report v)) (demo_encode v)"
proof -
  have "demo_encode v =
          (''<NessusClientData_v2><Policy>'' @ Policy.Content (Policy v) @
           ''</Policy><Report name=\"'') @ Report.Name (Report v) @
          (''\">'' @ concat (map demo_encode_host (ReportHosts (Report v))) @
           ''</Report></NessusClientData_v2>'')"
    by (simp add: demo_encode_def)
  then show ?thesis
    unfolding sublist_def by blast
qed

lemma demo_encode_policy: "sublist (Policy.Content (Policy v)) (demo_encode v)"
proof -
  have "demo_encode v =
          ''<NessusClientData_v2><Policy>'' @ Policy.Content (Policy v) @
          (''</Policy><Report name=\"'' @ Report.Name (Report v) @
           ''\">'' @ concat (map demo_encode_host (ReportHosts (Report v))) @
           ''</Report></NessusClientData_v2>'')"
    by (simp add: demo_encode_def)
  then show ?thesis
    unfolding sublist_def by blast
qed

lemma demo_verbatim: "innerxml_verbatim demo_env"
  unfolding innerxml_verbatim_def demo_marshal
  by (auto intro: demo_encode_name demo_encode_policy demo_encode_hosts
      demo_encode_host_props demo_encode_host_item)

section \<open>The claims\<close>

text \<open>
  In every statement \<open>docs\<close> are the documents that the files parse to, \<open>st\<close> is the
  state in which the loops of \<open>mergeNessusFiles\<close> end, and \<open>keys\<close> is the order in
  which the runtime ranges over \<open>hostMap\<close>; \<open>mergedData st keys\<close> is the document that is
  handed to the encoder.
\<close>

text \<open>
  C1. The findings of the merged document, each taken together with the name of the host
  that carries it, are as a multiset exactly the findings of all input documents with
  the names of their hosts: no finding is dropped, duplicated, changed or moved to another
  host name. In particular the number of findings of the output is the sum over all inputs.
\<close>

theorem conservation:
  assumes "map (parseNessusFile e) files = map Inr docs"
    and "mergeLoop e 0 files init_state = Inr st"
    and "range_order (hostMap st) keys"
  shows "mset (attributed (ReportHosts (Report (mergedData st keys)))) =
           mset (attributed (hostOccurrences docs)) \<and>
         findingCount (ReportHosts (Report (mergedData st keys))) =
           findingCount (hostOccurrences docs)"
proof -
  have m: "mset (attributed (ReportHosts (Report (mergedData st keys)))) =
           mset (attributed (hostOccurrences docs))"
    using assms by (rule mset_attributed_output)
  then have "size (mset (attributed (ReportHosts (Report (mergedData st keys))))) =
           size (mset (attributed (hostOccurrences docs)))"
    by (rule arg_cong)
  then have "findingCount (ReportHosts (Report (mergedData st keys))) =
           findingCount (hostOccurrences docs)"
    by (simp add: length_attributed)
  with m show ?thesis by simp
qed

theorem conservation_witness:
  "map (parseNessusFile demo_env) [''A'', ''B''] = map Inr [docA, docB] \<and>
   mergeLoop demo_env 0 [''A'', ''B''] init_state = Inr stateAB \<and>
   range_order (hostMap stateAB) [''10.0.0.2'', ''10.0.0.1''] \<and>
   mset (attributed (ReportHosts (Report (mergedData stateAB [''10.0.0.2'', ''10.0.0.1''])))) =
     mset (attributed (hostOccurrences [docA, docB])) \<and>
   findingCount (ReportHosts (Report (mergedData stateAB [''10.0.0.2'', ''10.0.0.1'']))) =
     findingCount (hostOccurrences [docA, docB]) \<and>
   findingCount (hostOccurrences [docA, docB]) = 6"
proof -
  have "findingCount (hostOccurrences [docA, docB]) = 6"
    by (simp add: findingCount_def docA_def docB_def demo_doc_def)
  with conservation [OF demo_parsed_AB demo_loop_AB demo_order_AB]
    demo_parsed_AB demo_loop_AB demo_order_AB
  show ?thesis by blast
qed

text \<open>
  C2. A host name that occurs in the input has exactly one entry in the merged document.
  Its finding list is the concatenation, in processing order of the documents, of the
  findings that each document holds under that name, so its length is the sum of the
  per-document counts.
\<close>

theorem host_identity_merge:
  assumes "map (parseNessusFile e) files = map Inr docs"
    and "mergeLoop e 0 files init_state = Inr st"
    and "range_order (hostMap st) keys"
    and "n \<in> ReportHost.Name ` set (hostOccurrences docs)"
  shows "\<exists>h. named n (ReportHosts (Report (mergedData st keys))) = [h] \<and>
             ReportItems h = concat (map (\<lambda>d. findingsOf (named n (ReportHosts (Report d)))) docs) \<and>
             length (ReportItems h) =
               sum_list (map (\<lambda>d. findingCount (named n (ReportHosts (Report d)))) docs)"
proof -
  from assms(4) obtain h0 rest where nm: "named n (hostOccurrences docs) = h0 # rest"
    by (cases "named n (hostOccurrences docs)") (auto simp: named_Nil_iff)
  let ?h = "h0\<lparr>ReportItems := findingsOf (h0 # rest)\<rparr>"
  have 1: "named n (ReportHosts (Report (mergedData st keys))) = [?h]"
    by (simp add: named_output [OF assms(1-3)] nm)
  have 2: "ReportItems ?h = concat (map (\<lambda>d. findingsOf (named n (ReportHosts (Report d)))) docs)"
    using findingsOf_named_docs [of n docs] by (simp add: nm)
  have "length (concat (map (\<lambda>d. findingsOf (named n (ReportHosts (Report d)))) docs)) =
          sum_list (map (\<lambda>d. findingCount (named n (ReportHosts (Report d)))) docs)"
    by (simp add: length_concat comp_def length_findingsOf)
  with 2 have 3: "length (ReportItems ?h) =
          sum_list (map (\<lambda>d. findingCount (named n (ReportHosts (Report d)))) docs)"
    by simp
  from 1 2 3 show ?thesis by blast
qed

theorem host_identity_merge_witness:
  "map (parseNessusFile demo_env) [''A'', ''B''] = map Inr [docA, docB] \<and>
   mergeLoop demo_env 0 [''A'', ''B''] init_state = Inr stateAB \<and>
   range_order (hostMap stateAB) [''10.0.0.2'', ''10.0.0.1''] \<and>
   ''10.0.0.1'' \<in> ReportHost.Name ` set (hostOccurrences [docA, docB]) \<and>
   (\<exists>h. named ''10.0.0.1'' (ReportHosts (Report (mergedData stateAB [''10.0.0.2'', ''10.0.0.1'']))) = [h] \<and>
        ReportItems h =
          concat (map (\<lambda>d. findingsOf (named ''10.0.0.1'' (ReportHosts (Report d)))) [docA, docB]) \<and>
        length (ReportItems h) =
          sum_list (map (\<lambda>d. findingCount (named ''10.0.0.1'' (ReportHosts (Report d)))) [docA, docB]))"
proof -
  have n: "''10.0.0.1'' \<in> ReportHost.Name ` set (hostOccurrences [docA, docB])"
    by (simp add: docA_def demo_doc_def)
  from host_identity_merge [OF demo_parsed_AB demo_loop_AB demo_order_AB n]
    demo_parsed_AB demo_loop_AB demo_order_AB n
  show ?thesis by blast
qed

text \<open>
  C3, as amended. When the loops end, \<open>mergedHosts\<close> is the number of host occurrences
  minus the number of distinct host names: every occurrence of a name after its first
  counts once. \<open>totalFindings\<close> is the sum of the finding counts of all host occurrences,
  first appearances included.
\<close>

theorem merge_counters:
  assumes "map (parseNessusFile e) files = map Inr docs"
    and "mergeLoop e 0 files init_state = Inr st"
  shows "mergedHosts st =
           length (hostOccurrences docs) - card (ReportHost.Name ` set (hostOccurrences docs)) \<and>
         totalFindings st = findingCount (hostOccurrences docs)"
proof -
  have st: "st = (processHosts init_state (hostOccurrences docs))
                \<lparr>basePolicy := (case docs of [] \<Rightarrow> zero_Policy | d # _ \<Rightarrow> Policy d)\<rparr>"
    using assms by (rule mergeLoop_result)
  have "mergedHosts st + card (ReportHost.Name ` set (hostOccurrences docs)) = length (hostOccurrences docs)"
    by (subst st) (simp add: mergedHosts_processHosts)
  moreover have "totalFindings st = findingCount (hostOccurrences docs)"
    by (subst st) (simp add: totalFindings_processHosts length_findingsOf)
  ultimately show ?thesis by simp
qed

theorem merge_counters_witness:
  "map (parseNessusFile demo_env) [''A'', ''B''] = map Inr [docA, docB] \<and>
   mergeLoop demo_env 0 [''A'', ''B''] init_state = Inr stateAB \<and>
   mergedHosts stateAB =
     length (hostOccurrences [docA, docB]) -
     card (ReportHost.Name ` set (hostOccurrences [docA, docB])) \<and>
   totalFindings stateAB = findingCount (hostOccurrences [docA, docB]) \<and>
   mergedHosts stateAB = 1 \<and> totalFindings stateAB = 6"
proof -
  have "mergedHosts stateAB = 1 \<and> totalFindings stateAB = 6"
    by (simp add: stateAB_def)
  with merge_counters [OF demo_parsed_AB demo_loop_AB] demo_parsed_AB demo_loop_AB
  show ?thesis by blast
qed

text \<open>
  The counter is not the number of names seen more than once. In the run over the files
  \<open>A\<close>, \<open>B\<close> and \<open>C\<close> only the name \<open>10.0.0.1\<close> is seen more than once, and it is seen
  three times: \<open>mergedHosts\<close> ends at 2.
\<close>

theorem merged_counter_counterexample:
  "map (parseNessusFile demo_env) [''A'', ''B'', ''C''] = map Inr [docA, docB, docC] \<and>
   mergeLoop demo_env 0 [''A'', ''B'', ''C''] init_state = Inr stateABC \<and>
   mergedHosts stateABC = 2 \<and>
   length (seenMoreThanOnce (hostOccurrences [docA, docB, docC])) = 1 \<and>
   mergedHosts stateABC \<noteq> length (seenMoreThanOnce (hostOccurrences [docA, docB, docC]))"
proof -
  have "length (seenMoreThanOnce (hostOccurrences [docA, docB, docC])) = 1"
    by (simp add: seenMoreThanOnce_def hostOccurrences_def docA_def docB_def docC_def
        demo_doc_def named_def)
  moreover have "mergedHosts stateABC = 2"
    by (simp add: stateABC_def)
  moreover have "map (parseNessusFile demo_env) [''A'', ''B'', ''C''] = map Inr [docA, docB, docC]"
    by (simp add: demo_parse)
  ultimately show ?thesis using demo_loop_ABC by simp
qed

text \<open>
  C4. When the first file parses to \<open>d\<close>, the policy of the merged document is the
  policy of \<open>d\<close>, unchanged. The policies of the later documents have no effect: a run
  over any files that parse to \<open>d\<close> followed by documents with the same reports, under
  whatever policies, ends in the same state and so yields the same merged document.
\<close>

theorem policy_selection:
  assumes "map (parseNessusFile e) files = map Inr (d # ds)"
    and "mergeLoop e 0 files init_state = Inr st"
    and "map (parseNessusFile e') files' = map Inr (d # ds')"
    and "map Report ds' = map Report ds"
  shows "Policy (mergedData st keys) = Policy d \<and>
         mergeLoop e' 0 files' init_state = Inr st"
proof -
  have st: "st = (processHosts init_state (hostOccurrences (d # ds)))\<lparr>basePolicy := Policy d\<rparr>"
    using mergeLoop_result [OF assms(1,2)] by simp
  have "hostOccurrences (d # ds') = hostOccurrences (d # ds)"
    using hostOccurrences_Reports [OF assms(4)] by simp
  then have "mergeLoop e' 0 files' init_state = Inr st"
    by (simp add: mergeLoop_parsed [OF assms(3)] st processHosts_basePolicy)
  moreover have "Policy (mergedData st keys) = Policy d"
    by (simp add: mergedData_def st)
  ultimately show ?thesis by simp
qed

theorem policy_selection_witness:
  "map (parseNessusFile demo_env) [''A'', ''B''] = map Inr [docA, docB] \<and>
   mergeLoop demo_env 0 [''A'', ''B''] init_state = Inr stateAB \<and>
   map (parseNessusFile demo_env) [''A'', ''E''] = map Inr [docA, docE] \<and>
   map Report [docE] = map Report [docB] \<and>
   Policy docE \<noteq> Policy docB \<and>
   Policy (mergedData stateAB [''10.0.0.2'', ''10.0.0.1'']) = Policy docA \<and>
   mergeLoop demo_env 0 [''A'', ''E''] init_state = Inr stateAB"
proof -
  have e: "map (parseNessusFile demo_env) [''A'', ''E''] = map Inr [docA, docE]"
    by (simp add: demo_parse)
  have r: "map Report [docE] = map Report [docB]"
    by (simp add: docE_def docB_def demo_doc_def)
  have p: "Policy docE \<noteq> Policy docB"
    by (simp add: docE_def docB_def demo_doc_def)
  from policy_selection [OF demo_parsed_AB demo_loop_AB e r, of "[''10.0.0.2'', ''10.0.0.1'']"]
    demo_parsed_AB demo_loop_AB e r p
  show ?thesis by blast
qed

text \<open>
  C5. For a host name whose occurrences in processing order are \<open>first\<close> and then
  \<open>later\<close>, the one entry of that name in the map and in the merged document carries the
  properties of \<open>first\<close>; the properties of the later occurrences are not used.
\<close>

theorem first_properties_kept:
  assumes "map (parseNessusFile e) files = map Inr docs"
    and "mergeLoop e 0 files init_state = Inr st"
    and "range_order (hostMap st) keys"
    and "named n (hostOccurrences docs) = first # later"
  shows "\<exists>h. named n (ReportHosts (Report (mergedData st keys))) = [h] \<and>
             hostMap st n = Some h \<and>
             HostProperties h = HostProperties first"
proof -
  have hm: "hostMap st = hostMap (processHosts init_state (hostOccurrences docs))"
    by (simp add: mergeLoop_result [OF assms(1,2)])
  show ?thesis
    by (simp add: named_output [OF assms(1-3)] assms(4) hm hostMap_processHosts)
qed

theorem first_properties_kept_witness:
  "map (parseNessusFile demo_env) [''A'', ''B''] = map Inr [docA, docB] \<and>
   mergeLoop demo_env 0 [''A'', ''B''] init_state = Inr stateAB \<and>
   range_order (hostMap stateAB) [''10.0.0.2'', ''10.0.0.1''] \<and>
   named ''10.0.0.1'' (hostOccurrences [docA, docB]) =
     demo_host ''10.0.0.1'' ''A1'' [''1'', ''2'', ''3''] # [demo_host ''10.0.0.1'' ''B1'' [''5'', ''6'']] \<and>
   (\<exists>h. named ''10.0.0.1'' (ReportHosts (Report (mergedData stateAB [''10.0.0.2'', ''10.0.0.1'']))) = [h] \<and>
        hostMap stateAB ''10.0.0.1'' = Some h \<and>
        HostProperties h = HostProperties (demo_host ''10.0.0.1'' ''A1'' [''1'', ''2'', ''3'']))"
proof -
  have n: "named ''10.0.0.1'' (hostOccurrences [docA, docB]) =
     demo_host ''10.0.0.1'' ''A1'' [''1'', ''2'', ''3''] # [demo_host ''10.0.0.1'' ''B1'' [''5'', ''6'']]"
    by (simp add: named_def docA_def docB_def demo_doc_def)
  from first_properties_kept [OF demo_parsed_AB demo_loop_AB demo_order_AB n]
    demo_parsed_AB demo_loop_AB demo_order_AB n
  show ?thesis by blast
qed

text \<open>
  C6. If some file of the list fails to parse, then both passes over the files,
  \<open>countTotalHosts\<close> and \<open>mergeNessusFiles\<close>, return an error and nothing else: no
  output bytes exist. The error message names the first file of the list that fails and
  repeats the parser's message for it; all files before it parsed.
\<close>

theorem fail_fast:
  assumes "f \<in> set files" and "parseNessusFile e f = Inl err"
  shows "\<exists>pre g post err'. files = pre @ g # post \<and>
           (\<forall>x \<in> set pre. \<not> isl (parseNessusFile e x)) \<and>
           parseNessusFile e g = Inl err' \<and>
           mergeNessusFiles e keys files totalHosts = Inl (''error parsing '' @ g @ '': '' @ err') \<and>
           countTotalHosts e files = Inl (''error parsing '' @ g @ '': '' @ err')"
proof -
  from assms(2) have "isl (parseNessusFile e f)" by simp
  from first_failure [where parse = "parseNessusFile e", OF assms(1) this] obtain pre g post docs
    where files: "files = pre @ g # post"
      and pre: "map (parseNessusFile e) pre = map Inr docs"
      and "isl (parseNessusFile e g)"
    by blast
  then obtain err' where g: "parseNessusFile e g = Inl err'"
    by (cases "parseNessusFile e g") auto
  have ok: "\<forall>x \<in> set pre. \<not> isl (parseNessusFile e x)"
  proof
    fix x assume "x \<in> set pre"
    then have "parseNessusFile e x \<in> set (map (parseNessusFile e) pre)" by simp
    then have "parseNessusFile e x \<in> set (map Inr docs)" by (simp only: pre)
    then show "\<not> isl (parseNessusFile e x)" by auto
  qed
  have "mergeNessusFiles e keys files totalHosts = Inl (''error parsing '' @ g @ '': '' @ err')"
    by (simp add: mergeNessusFiles_def files mergeLoop_error [OF pre g])
  moreover have "countTotalHosts e files = Inl (''error parsing '' @ g @ '': '' @ err')"
    by (simp add: countTotalHosts_def files countTotalHosts_loop_error [OF pre g])
  ultimately show ?thesis using files ok g by blast
qed

theorem fail_fast_witness:
  "''X'' \<in> set [''A'', ''X'', ''B''] \<and>
   parseNessusFile demo_env ''X'' = Inl ''unexpected EOF'' \<and>
   (\<exists>pre g post err'. [''A'', ''X'', ''B''] = pre @ g # post \<and>
      (\<forall>x \<in> set pre. \<not> isl (parseNessusFile demo_env x)) \<and>
      parseNessusFile demo_env g = Inl err' \<and>
      mergeNessusFiles demo_env [] [''A'', ''X'', ''B''] 3 =
        Inl (''error parsing '' @ g @ '': '' @ err') \<and>
      countTotalHosts demo_env [''A'', ''X'', ''B''] =
        Inl (''error parsing '' @ g @ '': '' @ err')) \<and>
   mergeNessusFiles demo_env [] [''A'', ''X'', ''B''] 3 = Inl ''error parsing X: unexpected EOF''"
proof -
  have m: "''X'' \<in> set [''A'', ''X'', ''B'']" by simp
  have x: "parseNessusFile demo_env ''X'' = Inl ''unexpected EOF''" by (simp add: demo_parse)
  have "mergeNessusFiles demo_env [] [''A'', ''X'', ''B''] 3 = Inl ''error parsing X: unexpected EOF''"
    by (simp add: mergeNessusFiles_def demo_parse)
  with fail_fast [OF m x, of "[]" 3] m x show ?thesis by blast
qed

text \<open>
  C7, as amended. Merging a single file keeps its findings: with their host names they are
  the same multiset in the output as in the input, and their number is the same. The
  output has one host per distinct host name of the file. If the host names of the file
  are pairwise distinct, the hosts of the output are the hosts of the file, each once and
  unchanged, in the order the runtime picks.
\<close>

theorem single_file:
  assumes "parseNessusFile e f = Inr d"
    and "mergeLoop e 0 [f] init_state = Inr st"
    and "range_order (hostMap st) keys"
  shows "(distinct (map ReportHost.Name (ReportHosts (Report d))) \<longrightarrow>
            mset (ReportHosts (Report (mergedData st keys))) = mset (ReportHosts (Report d))) \<and>
         length (ReportHosts (Report (mergedData st keys))) =
           card (ReportHost.Name ` set (ReportHosts (Report d))) \<and>
         mset (attributed (ReportHosts (Report (mergedData st keys)))) =
           mset (attributed (ReportHosts (Report d))) \<and>
         findingCount (ReportHosts (Report (mergedData st keys))) =
           findingCount (ReportHosts (Report d))"
proof -
  let ?out = "ReportHosts (Report (mergedData st keys))"
  let ?hs = "ReportHosts (Report d)"
  from assms(1) have parsed: "map (parseNessusFile e) [f] = map Inr [d]" by simp
  have occ: "hostOccurrences [d] = ?hs" by simp
  have 1: "mset ?out = mset ?hs" if dis: "distinct (map ReportHost.Name ?hs)"
  proof (rule mset_eq_by_key [where f = ReportHost.Name])
    fix n
    have "named n ?out = named n ?hs"
    proof (cases "named n ?hs")
      case Nil
      then show ?thesis by (simp add: named_output [OF parsed assms(2,3)])
    next
      case (Cons h rest)
      with dis have "rest = []"
        unfolding named_def by (rule filter_distinct_key)
      with Cons show ?thesis
        by (simp add: named_output [OF parsed assms(2,3)] findingsOf_def)
    qed
    then have "mset (named n ?out) = mset (named n ?hs)" by (rule arg_cong)
    then show "filter_mset (\<lambda>x. ReportHost.Name x = n) (mset ?out) =
                 filter_mset (\<lambda>x. ReportHost.Name x = n) (mset ?hs)"
      by (simp only: named_def mset_filter)
  qed
  have 2: "length ?out = card (ReportHost.Name ` set ?hs)"
    using length_output [OF parsed assms(2,3)] by simp
  have 3: "mset (attributed ?out) = mset (attributed ?hs)"
    using mset_attributed_output [OF parsed assms(2,3)] by simp
  from 3 have "size (mset (attributed ?out)) = size (mset (attributed ?hs))"
    by (rule arg_cong)
  then have 4: "findingCount ?out = findingCount ?hs"
    by (simp add: length_attributed)
  from 1 2 3 4 show ?thesis by simp
qed

theorem single_file_witness:
  "parseNessusFile demo_env ''A'' = Inr docA \<and>
   mergeLoop demo_env 0 [''A''] init_state = Inr stateA \<and>
   range_order (hostMap stateA) [''10.0.0.2'', ''10.0.0.1''] \<and>
   distinct (map ReportHost.Name (ReportHosts (Report docA))) \<and>
   mset (ReportHosts (Report (mergedData stateA [''10.0.0.2'', ''10.0.0.1'']))) =
     mset (ReportHosts (Report docA)) \<and>
   length (ReportHosts (Report (mergedData stateA [''10.0.0.2'', ''10.0.0.1'']))) =
     card (ReportHost.Name ` set (ReportHosts (Report docA))) \<and>
   mset (attributed (ReportHosts (Report (mergedData stateA [''10.0.0.2'', ''10.0.0.1''])))) =
     mset (attributed (ReportHosts (Report docA))) \<and>
   findingCount (ReportHosts (Report (mergedData stateA [''10.0.0.2'', ''10.0.0.1'']))) =
     findingCount (ReportHosts (Report docA))"
proof -
  have a: "parseNessusFile demo_env ''A'' = Inr docA" by (simp add: demo_parse)
  have d: "distinct (map ReportHost.Name (ReportHosts (Report docA)))"
    by (simp add: docA_def demo_doc_def)
  from single_file [OF a demo_loop_A demo_order_A] a demo_loop_A demo_order_A d
  show ?thesis by blast
qed

text \<open>
  A file may hold the same host name twice, and then the host count changes: file \<open>D\<close>
  has two host entries and its merge has one.
\<close>

theorem single_file_counterexample:
  "parseNessusFile demo_env ''D'' = Inr docD \<and>
   mergeLoop demo_env 0 [''D''] init_state = Inr stateD \<and>
   range_order (hostMap stateD) [''h''] \<and>
   length (ReportHosts (Report docD)) = 2 \<and>
   length (ReportHosts (Report (mergedData stateD [''h'']))) = 1"
proof -
  have "parseNessusFile demo_env ''D'' = Inr docD" by (simp add: demo_parse)
  moreover have "length (ReportHosts (Report docD)) = 2"
    by (simp add: docD_def demo_doc_def)
  moreover have "length (ReportHosts (Report (mergedData stateD [''h'']))) = 1"
    by (simp add: mergedData_def stateD_def)
  ultimately show ?thesis using demo_loop_D demo_order_D by simp
qed

text \<open>
  C8. When the loops end, \<open>uniqueHosts\<close> is the number of distinct host names of all
  input documents, and \<open>uniqueHosts\<close> and \<open>mergedHosts\<close> together are at most the number
  of host occurrences.
\<close>

theorem unique_counter:
  assumes "map (parseNessusFile e) files = map Inr docs"
    and "mergeLoop e 0 files init_state = Inr st"
  shows "uniqueHosts st = card (ReportHost.Name ` set (hostOccurrences docs)) \<and>
         uniqueHosts st + mergedHosts st \<le> length (hostOccurrences docs)"
proof -
  have st: "st = (processHosts init_state (hostOccurrences docs))
                \<lparr>basePolicy := (case docs of [] \<Rightarrow> zero_Policy | d # _ \<Rightarrow> Policy d)\<rparr>"
    using assms by (rule mergeLoop_result)
  have "mergedHosts st + card (ReportHost.Name ` set (hostOccurrences docs)) = length (hostOccurrences docs)"
    by (subst st) (simp add: mergedHosts_processHosts)
  moreover have "uniqueHosts st = card (ReportHost.Name ` set (hostOccurrences docs))"
    by (subst st) (simp add: uniqueHosts_processHosts)
  ultimately show ?thesis by simp
qed

theorem unique_counter_witness:
  "map (parseNessusFile demo_env) [''A'', ''B''] = map Inr [docA, docB] \<and>
   mergeLoop demo_env 0 [''A'', ''B''] init_state = Inr stateAB \<and>
   uniqueHosts stateAB = card (ReportHost.Name ` set (hostOccurrences [docA, docB])) \<and>
   uniqueHosts stateAB + mergedHosts stateAB \<le> length (hostOccurrences [docA, docB]) \<and>
   uniqueHosts stateAB = 2"
proof -
  have "uniqueHosts stateAB = 2" by (simp add: stateAB_def)
  with unique_counter [OF demo_parsed_AB demo_loop_AB] demo_parsed_AB demo_loop_AB
  show ?thesis by blast
qed

text \<open>
  C9. When \<open>mergeNessusFiles\<close> returns bytes, they are \<open>xml.Header\<close> followed by what
  the encoder returns for the merged document, and that document is fully determined: its
  report name is \<open>Merged Nessus Report\<close>, its policy is the policy of the first document,
  and under every name its hosts are exactly one host, the first parsed host of that name
  with the findings of all parsed hosts of that name, or none if the name was not parsed.
  With an encoder that writes \<open>,innerxml\<close> fields verbatim, the bytes therefore contain
  the report name, the policy content of the first document, the properties content of
  the first occurrence of every host name, and the content of every finding of every
  parsed host, each byte for byte as the parser captured it.
\<close>

theorem serialized_output:
  assumes "map (parseNessusFile e) files = map Inr docs"
    and "mergeLoop e 0 files init_state = Inr st"
    and "range_order (hostMap st) keys"
    and "mergeNessusFiles e keys files totalHosts = Inr out"
    and "innerxml_verbatim e"
  shows "(\<exists>body. xml_MarshalIndent e (mergedData st keys) [] ''  '' = Inr body \<and>
            out = xml_Header @ body) \<and>
         Report.Name (Report (mergedData st keys)) = ''Merged Nessus Report'' \<and>
         Policy (mergedData st keys) = (case docs of [] \<Rightarrow> zero_Policy | d # _ \<Rightarrow> Policy d) \<and>
         (\<forall>n. named n (ReportHosts (Report (mergedData st keys))) =
            (case named n (hostOccurrences docs) of
               [] \<Rightarrow> []
             | first # later \<Rightarrow> [first\<lparr>ReportItems := findingsOf (first # later)\<rparr>])) \<and>
         sublist ''Merged Nessus Report'' out \<and>
         sublist (Policy.Content (case docs of [] \<Rightarrow> zero_Policy | d # _ \<Rightarrow> Policy d)) out \<and>
         (\<forall>h \<in> set (hostOccurrences docs).
            (\<exists>first later. named (ReportHost.Name h) (hostOccurrences docs) = first # later \<and>
               sublist (HostProperties.Content (HostProperties first)) out) \<and>
            (\<forall>item \<in> set (ReportItems h). sublist (ReportItem.Content item) out))"
proof -
  let ?doc = "mergedData st keys"
  let ?hs = "hostOccurrences docs"
  from assms(4) obtain body
    where body: "xml_MarshalIndent e ?doc [] ''  '' = Inr body" and out: "out = xml_Header @ body"
    by (auto simp: mergeNessusFiles_def assms(2) split: sum.splits)
  have name: "Report.Name (Report ?doc) = ''Merged Nessus Report''"
    by (simp add: mergedData_def)
  have policy: "Policy ?doc = (case docs of [] \<Rightarrow> zero_Policy | d # _ \<Rightarrow> Policy d)"
    by (subst mergeLoop_result [OF assms(1,2)]) (simp add: mergedData_def)
  have hosts: "named n (ReportHosts (Report ?doc)) =
      (case named n ?hs of [] \<Rightarrow> []
       | first # later \<Rightarrow> [first\<lparr>ReportItems := findingsOf (first # later)\<rparr>])" for n
    using assms(1-3) by (rule named_output)
  have in_out: "sublist s out" if "sublist s body" for s
  proof -
    from that obtain ps ss where "body = ps @ s @ ss"
      by (auto simp: sublist_def)
    then have "out = (xml_Header @ ps) @ s @ ss"
      by (simp add: out)
    then show ?thesis
      unfolding sublist_def by blast
  qed
  from assms(5) body
  have c1: "xml_plain (Report.Name (Report ?doc)) \<longrightarrow> sublist (Report.Name (Report ?doc)) body"
    and c2: "sublist (Policy.Content (Policy ?doc)) body"
    and c3: "\<forall>h \<in> set (ReportHosts (Report ?doc)).
               sublist (HostProperties.Content (HostProperties h)) body \<and>
               (\<forall>item \<in> set (ReportItems h). sublist (ReportItem.Content item) body)"
    unfolding innerxml_verbatim_def by blast+
  have "xml_plain ''Merged Nessus Report''"
    by (simp add: xml_plain_def)
  with c1 have b1: "sublist ''Merged Nessus Report'' out"
    by (simp add: name in_out)
  from c2 have b2: "sublist (Policy.Content (case docs of [] \<Rightarrow> zero_Policy | d # _ \<Rightarrow> Policy d)) out"
    by (simp add: policy [symmetric] in_out)
  have b3: "(\<exists>first later. named (ReportHost.Name h) ?hs = first # later \<and>
               sublist (HostProperties.Content (HostProperties first)) out) \<and>
            (\<forall>item \<in> set (ReportItems h). sublist (ReportItem.Content item) out)"
    if h: "h \<in> set ?hs" for h
  proof -
    from h have "ReportHost.Name h \<in> ReportHost.Name ` set ?hs" by (rule imageI)
    then obtain first later where nm: "named (ReportHost.Name h) ?hs = first # later"
      by (cases "named (ReportHost.Name h) ?hs") (auto simp: named_Nil_iff)
    let ?m = "first\<lparr>ReportItems := findingsOf (first # later)\<rparr>"
    have "named (ReportHost.Name h) (ReportHosts (Report ?doc)) = [?m]"
      by (simp add: hosts nm)
    then have "?m \<in> set (named (ReportHost.Name h) (ReportHosts (Report ?doc)))"
      by simp
    then have m: "?m \<in> set (ReportHosts (Report ?doc))"
      by (simp add: named_def)
    with c3 have p: "sublist (HostProperties.Content (HostProperties ?m)) body"
      and i: "\<forall>item \<in> set (ReportItems ?m). sublist (ReportItem.Content item) body"
      by blast+
    from p have 1: "sublist (HostProperties.Content (HostProperties first)) out"
      by (simp add: in_out)
    from h have "h \<in> set (named (ReportHost.Name h) ?hs)"
      by (simp add: named_def)
    then have hin: "h \<in> set (first # later)"
      by (simp only: nm)
    have 2: "\<forall>item \<in> set (ReportItems h). sublist (ReportItem.Content item) out"
    proof
      fix item assume "item \<in> set (ReportItems h)"
      with hin have "item \<in> set (findingsOf (first # later))"
        unfolding findingsOf_def by auto
      then have "item \<in> set (ReportItems ?m)" by simp
      with i have "sublist (ReportItem.Content item) body" by blast
      then show "sublist (ReportItem.Content item) out" by (rule in_out)
    qed
    from nm 1 2 show ?thesis by blast
  qed
  from body out have b0: "\<exists>body. xml_MarshalIndent e ?doc [] ''  '' = Inr body \<and> out = xml_Header @ body"
    by blast
  from b0 name policy hosts b1 b2 b3 show ?thesis by blast
qed

theorem serialized_output_witness:
  "map (parseNessusFile demo_env) [''A'', ''B''] = map Inr [docA, docB] \<and>
   mergeLoop demo_env 0 [''A'', ''B''] init_state = Inr stateAB \<and>
   range_order (hostMap stateAB) [''10.0.0.2'', ''10.0.0.1''] \<and>
   mergeNessusFiles demo_env [''10.0.0.2'', ''10.0.0.1''] [''A'', ''B''] 3 =
     Inr (xml_Header @ demo_encode (mergedData stateAB [''10.0.0.2'', ''10.0.0.1''])) \<and>
   innerxml_verbatim demo_env \<and>
   Report.Name (Report (mergedData stateAB [''10.0.0.2'', ''10.0.0.1''])) = ''Merged Nessus Report'' \<and>
   Policy (mergedData stateAB [''10.0.0.2'', ''10.0.0.1'']) = Policy docA \<and>
   named ''10.0.0.2'' (ReportHosts (Report (mergedData stateAB [''10.0.0.2'', ''10.0.0.1'']))) =
     [demo_host ''10.0.0.2'' ''A2'' [''4'']] \<and>
   named ''10.0.0.1'' (ReportHosts (Report (mergedData stateAB [''10.0.0.2'', ''10.0.0.1'']))) =
     [demo_host ''10.0.0.1'' ''A1'' [''1'', ''2'', ''3'', ''5'', ''6'']] \<and>
   sublist ''Merged Nessus Report''
     (xml_Header @ demo_encode (mergedData stateAB [''10.0.0.2'', ''10.0.0.1''])) \<and>
   sublist ''pA'' (xml_Header @ demo_encode (mergedData stateAB [''10.0.0.2'', ''10.0.0.1''])) \<and>
   demo_host ''10.0.0.2'' ''A2'' [''4''] \<in> set (hostOccurrences [docA, docB]) \<and>
   sublist ''A2'' (xml_Header @ demo_encode (mergedData stateAB [''10.0.0.2'', ''10.0.0.1''])) \<and>
   sublist ''<plugin_output>4</plugin_output>''
     (xml_Header @ demo_encode (mergedData stateAB [''10.0.0.2'', ''10.0.0.1''])) \<and>
   demo_host ''10.0.0.1'' ''B1'' [''5'', ''6''] \<in> set (hostOccurrences [docA, docB]) \<and>
   sublist ''A1'' (xml_Header @ demo_encode (mergedData stateAB [''10.0.0.2'', ''10.0.0.1''])) \<and>
   sublist ''<plugin_output>5</plugin_output>''
     (xml_Header @ demo_encode (mergedData stateAB [''10.0.0.2'', ''10.0.0.1'']))"
proof -
  let ?out = "xml_Header @ demo_encode (mergedData stateAB [''10.0.0.2'', ''10.0.0.1''])"
  let ?a2 = "demo_host ''10.0.0.2'' ''A2'' [''4'']"
  let ?a1 = "demo_host ''10.0.0.1'' ''A1'' [''1'', ''2'', ''3'']"
  let ?b1 = "demo_host ''10.0.0.1'' ''B1'' [''5'', ''6'']"
  note r = serialized_output
    [OF demo_parsed_AB demo_loop_AB demo_order_AB demo_output_AB demo_verbatim]
  have hs: "hostOccurrences [docA, docB] = [?a1, ?a2, ?b1]"
    by (rule demo_hosts_AB)
  from r have p: "Policy (mergedData stateAB [''10.0.0.2'', ''10.0.0.1'']) = Policy docA"
    and pc: "sublist (Policy.Content (Policy docA)) ?out"
    by simp_all
  from pc have pa: "sublist ''pA'' ?out"
    by (simp add: docA_def demo_doc_def)
  from r have n: "named n (ReportHosts (Report (mergedData stateAB [''10.0.0.2'', ''10.0.0.1'']))) =
      (case named n [?a1, ?a2, ?b1] of [] \<Rightarrow> []
       | first # later \<Rightarrow> [first\<lparr>ReportItems := findingsOf (first # later)\<rparr>])" for n
    unfolding hs by blast
  have n2: "named ''10.0.0.2'' (ReportHosts (Report (mergedData stateAB [''10.0.0.2'', ''10.0.0.1'']))) = [?a2]"
    unfolding n by (simp add: named_def findingsOf_def demo_host_def)
  have n1: "named ''10.0.0.1'' (ReportHosts (Report (mergedData stateAB [''10.0.0.2'', ''10.0.0.1'']))) =
      [demo_host ''10.0.0.1'' ''A1'' [''1'', ''2'', ''3'', ''5'', ''6'']]"
    unfolding n by (simp add: named_def findingsOf_def demo_host_def)
  have m2: "?a2 \<in> set (hostOccurrences [docA, docB])" and m1: "?b1 \<in> set (hostOccurrences [docA, docB])"
    unfolding hs by simp_all
  from r m2 have "(\<exists>first later. named (ReportHost.Name ?a2) (hostOccurrences [docA, docB]) = first # later \<and>
               sublist (HostProperties.Content (HostProperties first)) ?out) \<and>
            (\<forall>item \<in> set (ReportItems ?a2). sublist (ReportItem.Content item) ?out)"
    by blast
  then have s2: "sublist ''A2'' ?out" and i4: "sublist ''<plugin_output>4</plugin_output>'' ?out"
    unfolding hs by (auto simp: named_def demo_host_def demo_item_def)
  from r m1 have "(\<exists>first later. named (ReportHost.Name ?b1) (hostOccurrences [docA, docB]) = first # later \<and>
               sublist (HostProperties.Content (HostProperties first)) ?out) \<and>
            (\<forall>item \<in> set (ReportItems ?b1). sublist (ReportItem.Content item) ?out)"
    by blast
  then have s1: "sublist ''A1'' ?out" and i5: "sublist ''<plugin_output>5</plugin_output>'' ?out"
    unfolding hs by (auto simp: named_def demo_host_def demo_item_def)
  from r have nm: "Report.Name (Report (mergedData stateAB [''10.0.0.2'', ''10.0.0.1''])) = ''Merged Nessus Report''"
    and sn: "sublist ''Merged Nessus Report'' ?out"
    by blast+
  from demo_parsed_AB demo_loop_AB demo_order_AB demo_output_AB demo_verbatim
    nm p n2 n1 sn pa m2 s2 i4 m1 s1 i5
  show ?thesis by blast
qed

text \<open>
  C10. The map is keyed by host name over the whole run. If one document holds two host
  entries \<open>h1\<close> and then \<open>h2\<close> of the same name, and the name occurs nowhere else in the
  run, the merged document has one host of that name: \<open>h1\<close> with the findings of
  \<open>h1\<close> followed by those of \<open>h2\<close>. Processing \<open>h2\<close> raises \<open>mergedHosts\<close> by one,
  whatever policy \<open>p\<close> the first document of the run had.
\<close>

theorem same_document_duplicates:
  assumes "map (parseNessusFile e) files = map Inr (before @ d # after)"
    and "mergeLoop e 0 files init_state = Inr st"
    and "range_order (hostMap st) keys"
    and "ReportHosts (Report d) = xs @ h1 # ys @ h2 # zs"
    and "ReportHost.Name h2 = ReportHost.Name h1"
    and "ReportHost.Name h1 \<notin> ReportHost.Name ` set (hostOccurrences before @ xs @ ys @ zs @ hostOccurrences after)"
  shows "named (ReportHost.Name h1) (ReportHosts (Report (mergedData st keys))) =
           [h1\<lparr>ReportItems := ReportItems h1 @ ReportItems h2\<rparr>] \<and>
         mergedHosts (processHosts (init_state\<lparr>basePolicy := p\<rparr>)
                        (hostOccurrences before @ xs @ h1 # ys @ [h2])) =
           Suc (mergedHosts (processHosts (init_state\<lparr>basePolicy := p\<rparr>)
                               (hostOccurrences before @ xs @ h1 # ys)))"
proof -
  let ?n = "ReportHost.Name h1"
  have occ: "hostOccurrences (before @ d # after) =
          hostOccurrences before @ xs @ h1 # ys @ h2 # zs @ hostOccurrences after"
    by (simp add: hostOccurrences_def assms(4))
  from assms(6) have "named ?n (hostOccurrences before) = []" "named ?n xs = []"
    "named ?n ys = []" "named ?n zs = []" "named ?n (hostOccurrences after) = []"
    by (simp_all add: named_Nil_iff image_Un)
  then have "named ?n (hostOccurrences (before @ d # after)) = [h1, h2]"
    by (simp add: occ named_Cons assms(5))
  then have 1: "named ?n (ReportHosts (Report (mergedData st keys))) =
           [h1\<lparr>ReportItems := ReportItems h1 @ ReportItems h2\<rparr>]"
    by (simp add: named_output [OF assms(1-3)] findingsOf_def)
  have "hostMap (processHosts init_state (hostOccurrences before @ xs @ h1 # ys)) (ReportHost.Name h2) \<noteq> None"
    by (simp add: hostMap_None_iff assms(5))
  then have "mergedHosts (processHosts init_state (hostOccurrences before @ xs @ h1 # ys @ [h2])) =
           Suc (mergedHosts (processHosts init_state (hostOccurrences before @ xs @ h1 # ys)))"
    using processHosts_snoc [of init_state "hostOccurrences before @ xs @ h1 # ys" h2]
    by (auto simp: processHost_def Let_def)
  then have 2: "mergedHosts (processHosts (init_state\<lparr>basePolicy := p\<rparr>)
                        (hostOccurrences before @ xs @ h1 # ys @ [h2])) =
           Suc (mergedHosts (processHosts (init_state\<lparr>basePolicy := p\<rparr>)
                               (hostOccurrences before @ xs @ h1 # ys)))"
    by (simp add: processHosts_basePolicy)
  from 1 2 show ?thesis by simp
qed

theorem same_document_duplicates_witness:
  "map (parseNessusFile demo_env) [''D''] = map Inr [docD] \<and>
   mergeLoop demo_env 0 [''D''] init_state = Inr stateD \<and>
   range_order (hostMap stateD) [''h''] \<and>
   ReportHosts (Report docD) = [demo_host ''h'' ''D1'' [''8''], demo_host ''h'' ''D2'' [''9'']] \<and>
   ReportHost.Name (demo_host ''h'' ''D2'' [''9'']) = ReportHost.Name (demo_host ''h'' ''D1'' [''8'']) \<and>
   named ''h'' (ReportHosts (Report (mergedData stateD [''h'']))) =
     [(demo_host ''h'' ''D1'' [''8''])
        \<lparr>ReportItems := ReportItems (demo_host ''h'' ''D1'' [''8'']) @
                         ReportItems (demo_host ''h'' ''D2'' [''9''])\<rparr>] \<and>
   mergedHosts (processHosts (init_state\<lparr>basePolicy := Policy docD\<rparr>)
                  [demo_host ''h'' ''D1'' [''8''], demo_host ''h'' ''D2'' [''9'']]) =
     Suc (mergedHosts (processHosts (init_state\<lparr>basePolicy := Policy docD\<rparr>)
                         [demo_host ''h'' ''D1'' [''8'']]))"
proof -
  have p: "map (parseNessusFile demo_env) [''D''] = map Inr ([] @ docD # [])"
    by (simp add: demo_parse)
  have h: "ReportHosts (Report docD) =
             [] @ demo_host ''h'' ''D1'' [''8''] # [] @ demo_host ''h'' ''D2'' [''9''] # []"
    by (simp add: docD_def demo_doc_def)
  have n: "ReportHost.Name (demo_host ''h'' ''D2'' [''9'']) = ReportHost.Name (demo_host ''h'' ''D1'' [''8''])"
    by simp
  have o: "ReportHost.Name (demo_host ''h'' ''D1'' [''8'']) \<notin>
             ReportHost.Name ` set (hostOccurrences [] @ [] @ [] @ [] @ hostOccurrences [])"
    by simp
  from same_document_duplicates [OF p demo_loop_D demo_order_D h n o, of "Policy docD"]
    p demo_loop_D demo_order_D h n
  show ?thesis by simp
qed

end
